theory Spec2Isabelle
  imports Main "HOL-Library.Char_ord" "HOL-Library.List_Lexorder"
begin

section \<open>JavaScript strings\<close>

text \<open>
  Language tags are ASCII strings (spec, section 6). A JavaScript string is modelled as a
  \<^typ>\<open>string\<close>, and \<open>toLowerCase\<close> and \<open>toUpperCase\<close> change the case of the
  ASCII letters and leave every other character as it is. A tag that has passed
  \<open>languageTagRE\<close> consists of ASCII letters, digits and \<open>-\<close>, and on those this
  is what the two methods do.
\<close>

definition lowers :: string where
  "lowers = ''abcdefghijklmnopqrstuvwxyz''"

definition uppers :: string where
  "uppers = ''ABCDEFGHIJKLMNOPQRSTUVWXYZ''"

definition lower_char :: "char \<Rightarrow> char" where
  "lower_char c = (case map_of (zip uppers lowers) c of Some d \<Rightarrow> d | None \<Rightarrow> c)"

definition upper_char :: "char \<Rightarrow> char" where
  "upper_char c = (case map_of (zip lowers uppers) c of Some d \<Rightarrow> d | None \<Rightarrow> c)"

definition toLowerCase :: "string \<Rightarrow> string" where
  "toLowerCase s = map lower_char s"

definition toUpperCase :: "string \<Rightarrow> string" where
  "toUpperCase s = map upper_char s"

text \<open>\<open>s.startsWith(p)\<close>.\<close>

fun startsWith :: "string \<Rightarrow> string \<Rightarrow> bool" where
  "startsWith s [] = True"
| "startsWith [] (p # ps) = False"
| "startsWith (c # cs) (p # ps) = (c = p \<and> startsWith cs ps)"

text \<open>\<open>s.indexOf(p)\<close>: the index of the first occurrence of \<open>p\<close>, or \<open>-1\<close>.\<close>

fun indexOf :: "string \<Rightarrow> string \<Rightarrow> int" where
  "indexOf [] p = (if p = [] then 0 else - 1)"
| "indexOf (c # cs) p =
     (if startsWith (c # cs) p then 0
      else (let r = indexOf cs p in if r < 0 then - 1 else r + 1))"

text \<open>
  \<open>s.substring(a, b)\<close> and \<open>s.substring(a)\<close>: both indices are clamped to
  \<open>[0, s.length]\<close> and swapped when the first is the larger.
\<close>

definition clamp_index :: "string \<Rightarrow> int \<Rightarrow> nat" where
  "clamp_index s k = min (nat k) (length s)"

definition substring :: "string \<Rightarrow> int \<Rightarrow> int \<Rightarrow> string" where
  "substring s a b =
     (let from = min (clamp_index s a) (clamp_index s b);
          to = max (clamp_index s a) (clamp_index s b)
      in take (to - from) (drop from s))"

definition substring_from :: "string \<Rightarrow> int \<Rightarrow> string" where
  "substring_from s a = drop (clamp_index s a) s"

text \<open>\<open>s.split('-')\<close> and \<open>xs.join('-')\<close>.\<close>

fun split_dash :: "string \<Rightarrow> string list" where
  "split_dash [] = [[]]"
| "split_dash (c # cs) =
     (if c = CHR ''-'' then [] # split_dash cs
      else (case split_dash cs of
              [] \<Rightarrow> [[c]]
            | w # ws \<Rightarrow> (c # w) # ws))"

fun join_dash :: "string list \<Rightarrow> string" where
  "join_dash [] = []"
| "join_dash [w] = w"
| "join_dash (w # v # ws) = w @ CHR ''-'' # join_dash (v # ws)"

text \<open>\<open>xs.slice(a, b)\<close> and \<open>xs.slice(a)\<close> for indices within the array.\<close>

definition slice :: "'a list \<Rightarrow> nat \<Rightarrow> nat \<Rightarrow> 'a list" where
  "slice xs a b = take (b - a) (drop a xs)"

definition slice_from :: "'a list \<Rightarrow> nat \<Rightarrow> 'a list" where
  "slice_from xs a = drop a xs"

section \<open>Regular expressions\<close>

text \<open>
  The fragment of JavaScript regular expressions that \<open>src/polyfill.js\<close> uses: character
  classes given by ranges, sequence, alternation, greedy bounded and unbounded repetition,
  one capturing group with its back reference, negative lookahead and the anchors.
  \<open>RegExp.prototype.test\<close> only asks whether some match exists, so the matcher returns
  every state a pattern can reach from a given state: the position, the rest of the input
  and the captures. With the flag \<open>i\<close> a character matches a class when its other case
  does; a back reference is then compared up to case, and exactly otherwise.
\<close>

datatype regex =
    Class "(char \<times> char) list"
  | Seq regex regex
  | Alt regex regex
  | Rep nat "nat option" regex
  | Group nat regex
  | Backref nat
  | NotAhead regex
  | Bol
  | Eol
  | Empty

type_synonym mstate = "nat \<times> string \<times> (nat \<rightharpoonup> string)"

definition in_class :: "(char \<times> char) list \<Rightarrow> char \<Rightarrow> bool" where
  "in_class rs c = list_ex (\<lambda>(lo, hi). lo \<le> c \<and> c \<le> hi) rs"

definition class_match :: "bool \<Rightarrow> (char \<times> char) list \<Rightarrow> char \<Rightarrow> bool" where
  "class_match ic rs c =
     (if in_class rs c then True
      else if ic then (if in_class rs (upper_char c) then True else in_class rs (lower_char c))
      else False)"

fun string_match :: "bool \<Rightarrow> string \<Rightarrow> string \<Rightarrow> string option" where
  "string_match ic s [] = Some s"
| "string_match ic [] (w # ws) = None"
| "string_match ic (c # cs) (w # ws) =
     (if (if ic then upper_char c = upper_char w else c = w)
      then string_match ic cs ws else None)"

text \<open>
  Repetition \<open>{lo,hi}\<close> of a step \<open>f\<close>, greedy. Every repeated pattern of the file
  consumes at least one character, so the length of the rest of the input, plus one,
  bounds the number of rounds.
\<close>

primrec iter ::
  "(mstate \<Rightarrow> mstate list) \<Rightarrow> nat \<Rightarrow> nat \<Rightarrow> nat option \<Rightarrow> mstate \<Rightarrow> mstate list" where
  "iter f 0 lo hi st = (if lo = 0 then [st] else [])"
| "iter f (Suc n) lo hi st =
     (if hi = Some 0 then [st]
      else concat (map (iter f n (lo - 1) (map_option (\<lambda>h. h - 1) hi))
                     (filter (\<lambda>st'. fst st < fst st') (f st)))
           @ (if lo = 0 then [st] else []))"

primrec matches :: "bool \<Rightarrow> regex \<Rightarrow> mstate \<Rightarrow> mstate list" where
  "matches ic (Class rs) st =
     (case fst (snd st) of
        [] \<Rightarrow> []
      | c # cs \<Rightarrow> if class_match ic rs c then [(Suc (fst st), cs, snd (snd st))] else [])"
| "matches ic (Seq r1 r2) st = concat (map (matches ic r2) (matches ic r1 st))"
| "matches ic (Alt r1 r2) st = matches ic r1 st @ matches ic r2 st"
| "matches ic (Rep lo hi r) st = iter (matches ic r) (Suc (length (fst (snd st)))) lo hi st"
| "matches ic (Group k r) st =
     map (\<lambda>st'. (fst st', fst (snd st'),
                  (snd (snd st'))(k \<mapsto> take (fst st' - fst st) (fst (snd st)))))
         (matches ic r st)"
| "matches ic (Backref k) st =
     (case snd (snd st) k of
        None \<Rightarrow> [st]
      | Some w \<Rightarrow>
          (case string_match ic (fst (snd st)) w of
             None \<Rightarrow> []
           | Some s' \<Rightarrow> [(fst st + length w, s', snd (snd st))]))"
| "matches ic (NotAhead r) st = (case matches ic r st of [] \<Rightarrow> [st] | x # xs \<Rightarrow> [])"
| "matches ic Bol st = (if fst st = 0 then [st] else [])"
| "matches ic Eol st = (case fst (snd st) of [] \<Rightarrow> [st] | c # cs \<Rightarrow> [])"
| "matches ic Empty st = [st]"

text \<open>A match may start at any position of the input.\<close>

fun search :: "bool \<Rightarrow> regex \<Rightarrow> nat \<Rightarrow> string \<Rightarrow> bool" where
  "search ic r p s =
     (case matches ic r (p, s, Map.empty) of
        x # xs \<Rightarrow> True
      | [] \<Rightarrow> (case s of [] \<Rightarrow> False | c # cs \<Rightarrow> search ic r (Suc p) cs))"

record RegExp =
  pattern :: regex
  ignoreCase :: bool

definition RegExp_test :: "RegExp \<Rightarrow> string \<Rightarrow> bool" where
  "RegExp_test re s = search (ignoreCase re) (pattern re) 0 s"

text \<open>Writing patterns: \<open>'a' + 'b' + ...\<close>, \<open>a|b|...\<close>, a literal character or string.\<close>

definition seqs :: "regex list \<Rightarrow> regex" where
  "seqs rs = foldr Seq rs Empty"

fun alts :: "regex list \<Rightarrow> regex" where
  "alts [] = Empty"
| "alts [r] = r"
| "alts (r # q # rs) = Alt r (alts (q # rs))"

definition lit :: "char \<Rightarrow> regex" where
  "lit c = Class [(c, c)]"

definition str :: "string \<Rightarrow> regex" where
  "str s = seqs (map lit s)"

definition star :: "regex \<Rightarrow> regex" where
  "star r = Rep 0 None r"

definition plus :: "regex \<Rightarrow> regex" where
  "plus r = Rep 1 None r"

definition opt :: "regex \<Rightarrow> regex" where
  "opt r = Rep 0 (Some 1) r"

definition times :: "nat \<Rightarrow> nat \<Rightarrow> regex \<Rightarrow> regex" where
  "times lo hi r = Rep lo (Some hi) r"

section \<open>The patterns of \<open>src/polyfill.js\<close>\<close>

text \<open>RFC 5234 section B.1 and RFC 5646 section 2.1, as the three pattern builders spell them.\<close>

definition ALPHA :: regex where
  "ALPHA = Class [(CHR ''a'', CHR ''z''), (CHR ''A'', CHR ''Z'')]"

definition DIGIT :: regex where
  "DIGIT = Class [(CHR ''0'', CHR ''9'')]"

definition alphanum :: regex where
  "alphanum = Alt ALPHA DIGIT"

definition regular :: regex where
  "regular = alts (map str [''art-lojban'', ''cel-gaulish'', ''no-bok'', ''no-nyn'',
     ''zh-guoyu'', ''zh-hakka'', ''zh-min'', ''zh-min-nan'', ''zh-xiang''])"

definition irregular :: regex where
  "irregular = alts (map str [''en-GB-oed'', ''i-ami'', ''i-bnn'', ''i-default'',
     ''i-enochian'', ''i-hak'', ''i-klingon'', ''i-lux'', ''i-mingo'', ''i-navajo'', ''i-pwn'',
     ''i-tao'', ''i-tay'', ''i-tsu'', ''sgn-BE-FR'', ''sgn-BE-NL'', ''sgn-CH-DE''])"

definition grandfathered :: regex where
  "grandfathered = Alt irregular regular"

definition privateuse :: regex where
  "privateuse =
     Seq (lit CHR ''x'')
       (plus (Seq (lit CHR ''-'')
          (times 1 8 (Class [(CHR ''a'', CHR ''z''), (CHR ''0'', CHR ''9'')]))))"

definition singleton :: regex where
  "singleton =
     Alt DIGIT (Class [(CHR ''A'', CHR ''W''), (CHR ''Y'', CHR ''Z''),
                       (CHR ''a'', CHR ''w''), (CHR ''y'', CHR ''z'')])"

definition extension :: regex where
  "extension = Seq singleton (plus (Seq (lit CHR ''-'') (times 2 8 alphanum)))"

definition variant :: regex where
  "variant = Alt (times 5 8 alphanum) (Seq DIGIT (times 3 3 alphanum))"

definition region :: regex where
  "region = Alt (times 2 2 ALPHA) (times 3 3 DIGIT)"

definition script :: regex where
  "script = times 4 4 ALPHA"

definition extlang :: regex where
  "extlang = Seq (times 3 3 ALPHA) (times 0 2 (Seq (lit CHR ''-'') (times 3 3 ALPHA)))"

definition language :: regex where
  "language =
     alts [Seq (times 2 3 ALPHA) (opt (Seq (lit CHR ''-'') extlang)),
           times 4 4 ALPHA,
           times 5 8 ALPHA]"

definition langtag :: regex where
  "langtag =
     seqs [language,
           opt (Seq (lit CHR ''-'') script),
           opt (Seq (lit CHR ''-'') region),
           star (Seq (lit CHR ''-'') variant),
           star (Seq (lit CHR ''-'') extension),
           opt (Seq (lit CHR ''-'') privateuse)]"

definition languageTag :: regex where
  "languageTag = seqs [Bol, alts [langtag, privateuse, grandfathered], Eol]"

definition languageTagRE :: RegExp where
  "languageTagRE = \<lparr>pattern = languageTag, ignoreCase = True\<rparr>"

definition duplicateVariant :: regex where
  "duplicateVariant =
     seqs [plus (Seq (times 2 8 alphanum) (lit CHR ''-'')),
           Group 1 variant, lit CHR ''-'',
           star (Seq (times 2 8 alphanum) (lit CHR ''-'')),
           Backref 1,
           NotAhead alphanum]"

definition duplicateVariantRE :: RegExp where
  "duplicateVariantRE = \<lparr>pattern = duplicateVariant, ignoreCase = False\<rparr>"

definition duplicateSingleton :: regex where
  "duplicateSingleton =
     seqs [lit CHR ''-'', Group 1 singleton, lit CHR ''-'',
           star (Seq (plus alphanum) (lit CHR ''-'')),
           Backref 1,
           NotAhead alphanum]"

definition duplicateSingletonRE :: RegExp where
  "duplicateSingletonRE = \<lparr>pattern = duplicateSingleton, ignoreCase = False\<rparr>"

definition unicodeLocaleExtensionSequence :: regex where
  "unicodeLocaleExtensionSequence =
     seqs [lit CHR ''-'', lit CHR ''u'',
           plus (Group 1 (Seq (lit CHR ''-'')
             (times 2 8 (Class [(CHR ''a'', CHR ''z''), (CHR ''0'', CHR ''9'')]))))]"

definition unicodeLocaleExtensionSequenceRE :: RegExp where
  "unicodeLocaleExtensionSequenceRE =
     \<lparr>pattern = unicodeLocaleExtensionSequence, ignoreCase = False\<rparr>"

section \<open>The validator and the extension stripper\<close>

text \<open>
  \<open>removeUnicodeExtensions\<close>: the tag is cut at the first \<open>-x-\<close> and the two halves are
  put back together. Nothing is done to the left half in between:
  \<open>unicodeLocaleExtensionSequenceRE\<close> is declared and never used.
\<close>

definition removeUnicodeExtensions :: "string \<Rightarrow> string" where
  "removeUnicodeExtensions tag =
     (if startsWith tag ''x-'' then tag
      else
        (let pos = indexOf tag ''-x-'';
             pos = (if pos < 0 then int (length tag) else pos);
             left = substring tag 0 pos;
             right = substring_from tag pos;
             combined = left @ right
         in combined))"

definition isStructurallyValidLanguageTag :: "string \<Rightarrow> bool" where
  "isStructurallyValidLanguageTag tag =
     (if \<not> RegExp_test languageTagRE tag then False
      else if startsWith tag ''x-'' then True
      else
        (let pos = indexOf tag ''-x-'';
             tag = (if pos = - 1 then tag else substring tag 0 pos)
         in \<not> RegExp_test duplicateVariantRE tag \<and> \<not> RegExp_test duplicateSingletonRE tag))"

section \<open>The canonicalizer\<close>

datatype js_error =
    RangeError string
  | ReferenceError string
  | TypeError string

text \<open>
  The three mapping tables are module constants, each the empty object \<open>{}\<close>.
  The canonicalizer is written over arbitrary tables first, so that the table lookups of
  its loop are part of the model; \<open>hasOwnProperty\<close> is the domain of the map.
\<close>

record extlang_mapping =
  preferred :: string
  prefix :: string

definition langTagMappings :: "string \<rightharpoonup> string" where
  "langTagMappings = Map.empty"

definition langSubtagMappings :: "string \<rightharpoonup> string" where
  "langSubtagMappings = Map.empty"

definition extlangMappings :: "string \<rightharpoonup> extlang_mapping" where
  "extlangMappings = Map.empty"

text \<open>
  The first loop: the subtags before the first singleton or \<open>x\<close>. It returns the array,
  updated in place, and the index where it stopped. Reading \<open>.prefix\<close> of an entry that
  the extlang table does not have is a TypeError.
\<close>

function standard_loop ::
  "(string \<rightharpoonup> string) \<Rightarrow> (string \<rightharpoonup> extlang_mapping) \<Rightarrow> string list \<Rightarrow> nat
     \<Rightarrow> js_error + string list \<times> nat" where
  "standard_loop sm em subtags i =
     (if \<not> i < length subtags then Inr (subtags, i)
      else
        (let subtag = subtags ! i in
         if length subtag = 1 \<and> (0 < i \<or> subtag = ''x'') then Inr (subtags, i)
         else
           (let subtag =
                  (if length subtag = 4
                   then toUpperCase [subtag ! 0] @ substring_from subtag 1
                   else if i \<noteq> 0 \<and> length subtag = 2 then toUpperCase subtag
                   else subtag)
            in case sm subtag of
                 Some v \<Rightarrow> standard_loop sm em (subtags[i := v]) (i + 1)
               | None \<Rightarrow>
                   (case em subtag of
                      None \<Rightarrow> standard_loop sm em (subtags[i := subtag]) (i + 1)
                    | Some e \<Rightarrow>
                        (let subtag = preferred e in
                         if i = 1 then
                           (case em subtag of
                              None \<Rightarrow> Inl (TypeError ''extlangMappings[subtag] is undefined'')
                            | Some e' \<Rightarrow>
                                if prefix e' = subtags ! 0
                                then standard_loop sm em ((tl subtags)[i - 1 := subtag]) (i - 1 + 1)
                                else standard_loop sm em (subtags[i := subtag]) (i + 1))
                         else standard_loop sm em (subtags[i := subtag]) (i + 1))))))"
  by pat_completeness auto
termination
  by (relation "measure (\<lambda>(sm, em, subtags, i). length subtags - i)") auto

declare standard_loop.simps [simp del]

text \<open>The inner loop of the extension grouping: skip the subtags longer than one character.\<close>

function extension_end :: "string list \<Rightarrow> nat \<Rightarrow> nat" where
  "extension_end subtags i =
     (if i < length subtags \<and> 1 < length (subtags ! i) then extension_end subtags (i + 1)
      else i)"
  by pat_completeness auto
termination
  by (relation "measure (\<lambda>(subtags, i). length subtags - i)") auto

declare extension_end.simps [simp del]

text \<open>
  The identifier \<open>sybtags\<close> is declared nowhere in the module: evaluating it throws a
  ReferenceError before \<open>slice\<close> is called.
\<close>

definition sybtags :: "js_error + string list" where
  "sybtags = Inl (ReferenceError ''sybtags is not defined'')"

function extension_loop ::
  "string list \<Rightarrow> nat \<Rightarrow> string list \<Rightarrow> js_error + string list \<times> nat" where
  "extension_loop subtags i extensions =
     (if i < length subtags \<and> subtags ! i \<noteq> ''x'' then
        (let extensionStart = i;
             i = extension_end subtags (i + 1)
         in case sybtags of
              Inl e \<Rightarrow> Inl e
            | Inr arr \<Rightarrow>
                (let extension = join_dash (slice arr extensionStart i)
                 in extension_loop subtags i (extensions @ [extension])))
      else Inr (extensions, i))"
  by pat_completeness auto
termination
proof (relation "measure (\<lambda>(subtags, i, extensions). length subtags - i)")
  show "wf (measure (\<lambda>(subtags, i, extensions). length subtags - i))" by simp
next
  fix subtags :: "string list" and i :: nat and extensions :: "string list"
    and x :: nat and xa :: nat and x2 :: "string list" and xb :: string
  assume a: "i < length subtags \<and> subtags ! i \<noteq> ''x''"
    and b: "xa = extension_end subtags (i + 1)"
  have ge: "k \<le> extension_end ws k" for ws k
  proof (induction ws k rule: extension_end.induct)
    case (1 ws k)
    show ?case
    proof (cases "k < length ws \<and> 1 < length (ws ! k)")
      case True
      with "1.IH" have "k + 1 \<le> extension_end ws (k + 1)" by simp
      with True show ?thesis by (subst extension_end.simps) simp
    next
      case False
      then show ?thesis by (subst extension_end.simps) auto
    qed
  qed
  have "i + 1 \<le> extension_end subtags (i + 1)" by (rule ge)
  with a b have "length subtags - xa < length subtags - i" by arith
  then show "((subtags, xa, extensions @ [xb]), subtags, i, extensions)
      \<in> measure (\<lambda>(subtags, i, extensions). length subtags - i)"
    by simp
qed

declare extension_loop.simps [simp del]

definition canonicalizeLanguageTagWith ::
  "(string \<rightharpoonup> string) \<Rightarrow> (string \<rightharpoonup> string) \<Rightarrow> (string \<rightharpoonup> extlang_mapping) \<Rightarrow> string
     \<Rightarrow> js_error + string" where
  "canonicalizeLanguageTagWith tm sm em tag =
     (let tag = toLowerCase tag in
      case tm tag of
        Some v \<Rightarrow> Inr v
      | None \<Rightarrow>
          (case standard_loop sm em (split_dash tag) 0 of
             Inl e \<Rightarrow> Inl e
           | Inr (subtags, i) \<Rightarrow>
               (let normal = join_dash (slice subtags 0 i) in
                case extension_loop subtags i [] of
                  Inl e \<Rightarrow> Inl e
                | Inr (extensions, i) \<Rightarrow>
                    (let extensions = sort extensions;
                         privateUse =
                           (if i < length subtags then join_dash (slice_from subtags i) else []);
                         canonical = normal;
                         canonical =
                           (if 0 < length extensions
                            then canonical @ ''-'' @ join_dash extensions else canonical);
                         canonical =
                           (if 0 < length privateUse
                            then (if 0 < length canonical
                                  then canonical @ ''-'' @ privateUse else privateUse)
                            else canonical)
                     in Inr canonical))))"

definition canonicalizeLanguageTag :: "string \<Rightarrow> js_error + string" where
  "canonicalizeLanguageTag tag =
     canonicalizeLanguageTagWith langTagMappings langSubtagMappings extlangMappings tag"

section \<open>The list canonicalizer\<close>

text \<open>
  The argument is \<open>undefined\<close>, one string, or a collection of strings that \<open>forEach\<close>
  visits in order (an array, or a \<open>Set\<close>). The result \<open>Set\<close> is the list of its members in
  insertion order.
\<close>

datatype locales = Undefined | Single string | Sequence "string list"

definition Set_add :: "string list \<Rightarrow> string \<Rightarrow> string list" where
  "Set_add seen tag = (if tag \<in> set seen then seen else seen @ [tag])"

fun forEach_tag :: "string list \<Rightarrow> string list \<Rightarrow> js_error + string list" where
  "forEach_tag [] seen = Inr seen"
| "forEach_tag (tag # tags) seen =
     (if \<not> isStructurallyValidLanguageTag tag
      then Inl (RangeError (''invalid language tag '' @ tag))
      else (case canonicalizeLanguageTag tag of
              Inl e \<Rightarrow> Inl e
            | Inr tag' \<Rightarrow> forEach_tag tags (Set_add seen tag')))"

definition canonicalizeLocaleList :: "locales \<Rightarrow> js_error + string list" where
  "canonicalizeLocaleList locs =
     (case locs of
        Undefined \<Rightarrow> Inr []
      | Single tag \<Rightarrow> forEach_tag [tag] []
      | Sequence tags \<Rightarrow> forEach_tag tags [])"

section \<open>The resolver and the exported object\<close>

text \<open>
  \<open>resolveLocale\<close> reads \<open>options.localeMatcher\<close> and calls \<open>LookupMatcher\<close> or
  \<open>BestFitMatcher\<close>. Neither identifier is declared in the module, so the call throws a
  ReferenceError when the callee is evaluated. The statements after the call are kept as
  they are written: in the module's strict mode the assignment to the undeclared
  \<open>extensionIndex\<close> throws, \<open>new {}\<close> throws a TypeError, and the function has no
  \<open>return\<close>.
\<close>

record resolve_options =
  localeMatcher :: "string option"

record matcher_result =
  r_locale :: string
  r_extension :: "string option"
  r_extensionIndex :: nat

record resolution =
  resolved_locale :: string
  dataLocale :: string
  resolved_extensions :: "(string \<times> string) list"

datatype js_result = JSUndefined | ResolutionResult resolution

definition LookupMatcher :: "string list \<Rightarrow> string list \<Rightarrow> js_error + matcher_result" where
  "LookupMatcher availableLocales requestedLocales =
     Inl (ReferenceError ''LookupMatcher is not defined'')"

definition BestFitMatcher :: "string list \<Rightarrow> string list \<Rightarrow> js_error + matcher_result" where
  "BestFitMatcher availableLocales requestedLocales =
     Inl (ReferenceError ''BestFitMatcher is not defined'')"

definition assign_extensionIndex :: "nat \<Rightarrow> js_error + unit" where
  "assign_extensionIndex v = Inl (ReferenceError ''extensionIndex is not defined'')"

definition new_object_literal :: "js_error + resolution" where
  "new_object_literal = Inl (TypeError ''{} is not a constructor'')"

definition resolveLocale ::
  "string list \<Rightarrow> string list \<Rightarrow> resolve_options \<Rightarrow> string list \<Rightarrow> 'd
     \<Rightarrow> js_error + js_result" where
  "resolveLocale availableLocales requestedLocales options relevantExtensionKeys localeData =
     (let matcher = localeMatcher options in
      case (if matcher = Some ''lookup''
            then LookupMatcher availableLocales requestedLocales
            else BestFitMatcher availableLocales requestedLocales) of
        Inl e \<Rightarrow> Inl e
      | Inr r \<Rightarrow>
          (let foundLocale = r_locale r;
               extension = r_extension r
           in case (case extension of
                      None \<Rightarrow> Inr ()
                    | Some ext \<Rightarrow> assign_extensionIndex (r_extensionIndex r)) of
                Inl e \<Rightarrow> Inl e
              | Inr u \<Rightarrow>
                  (case new_object_literal of
                     Inl e \<Rightarrow> Inl e
                   | Inr result \<Rightarrow>
                       (let result = result\<lparr>dataLocale := foundLocale\<rparr>;
                            supportedExtension = ''-u''
                        in Inr JSUndefined))))"

text \<open>
  The exported object. Its \<open>resolveLocale\<close> and \<open>prioritizeAvailableLocales\<close> are the
  empty function \<open>function() {}\<close>, which takes any list of arguments.
\<close>

record 'a Locale_object =
  member_canonicalizeLocaleList :: "locales \<Rightarrow> js_error + string list"
  member_resolveLocale :: "'a list \<Rightarrow> js_error + js_result"
  member_prioritizeAvailableLocales :: "'a list \<Rightarrow> js_error + js_result"

definition Locale :: "'a Locale_object" where
  "Locale =
     \<lparr>member_canonicalizeLocaleList = canonicalizeLocaleList,
      member_resolveLocale = (\<lambda>arguments. Inr JSUndefined),
      member_prioritizeAvailableLocales = (\<lambda>arguments. Inr JSUndefined)\<rparr>"

section \<open>Subtags of a tag\<close>

text \<open>
  The test that ends the first loop of the canonicalizer at index \<open>k\<close>, and the re-casing
  the loop applies to subtag \<open>i\<close> before the table lookups.
\<close>

definition stops_at :: "string list \<Rightarrow> nat \<Rightarrow> bool" where
  "stops_at subtags k = (length (subtags ! k) = 1 \<and> (0 < k \<or> subtags ! k = ''x''))"

definition recase :: "nat \<Rightarrow> string \<Rightarrow> string" where
  "recase i subtag =
     (if length subtag = 4 then toUpperCase [subtag ! 0] @ substring_from subtag 1
      else if i \<noteq> 0 \<and> length subtag = 2 then toUpperCase subtag
      else subtag)"

text \<open>
  A tag has an extension sequence when its list of subtags has, at some index \<open>j\<close> after
  position 0, a single-character subtag that introduces one: the subtag is not \<open>x\<close>,
  and no subtag before it is \<open>x\<close> (what follows an \<open>x\<close> is the private use sequence,
  whose subtags may have one character too).
\<close>

definition extension_singleton_at :: "string \<Rightarrow> nat \<Rightarrow> bool" where
  "extension_singleton_at tag j =
     (let subtags = split_dash (toLowerCase tag)
      in 0 < j \<and> j < length subtags \<and> length (subtags ! j) = 1
         \<and> ''x'' \<notin> set (take (Suc j) subtags))"

text \<open>The canonical forms of the tags of a list that have one, in order.\<close>

fun canonical_forms :: "string list \<Rightarrow> string list" where
  "canonical_forms [] = []"
| "canonical_forms (t # ts) =
     (case canonicalizeLanguageTag t of
        Inl e \<Rightarrow> canonical_forms ts
      | Inr c \<Rightarrow> c # canonical_forms ts)"

text \<open>Every member once, at its first place.\<close>

primrec first_seen :: "'a list \<Rightarrow> 'a list" where
  "first_seen [] = []"
| "first_seen (x # xs) = x # filter (\<lambda>y. y \<noteq> x) (first_seen xs)"

section \<open>Properties\<close>

subsection \<open>Letters, \<open>split\<close> and \<open>join\<close>\<close>

lemma length_alphabets: "length uppers = length lowers"
  by (simp add: uppers_def lowers_def)

lemma distinct_uppers: "distinct uppers"
  by (simp add: uppers_def)

lemma alphabets_disjoint: "c \<in> set lowers \<Longrightarrow> c \<notin> set uppers"
  by (auto simp: uppers_def lowers_def)

lemma dash_no_letter: "CHR ''-'' \<notin> set lowers" "CHR ''-'' \<notin> set uppers"
  by (simp_all add: uppers_def lowers_def)

lemma map_of_zip_swap:
  "length xs = length ys \<Longrightarrow> distinct ys \<Longrightarrow> map_of (zip xs ys) x = Some y \<Longrightarrow>
   map_of (zip ys xs) y = Some x"
proof (induction xs ys rule: list_induct2)
  case Nil
  then show ?case by simp
next
  case (Cons a as b bs)
  show ?case
  proof (cases "x = a")
    case True
    with Cons.prems show ?thesis by simp
  next
    case False
    with Cons.prems have m: "map_of (zip as bs) x = Some y" by simp
    then have "y \<in> set bs" by (auto dest: map_of_SomeD set_zip_rightD)
    with Cons.prems have "y \<noteq> b" by auto
    with Cons.IH m Cons.prems show ?thesis by simp
  qed
qed

lemma keys_zip_uppers: "fst ` set (zip uppers lowers) = set uppers"
proof -
  have "map fst (zip uppers lowers) = uppers" by (simp add: length_alphabets)
  from arg_cong [OF this, of set] show ?thesis by simp
qed

lemma lower_char_not_upper: "c \<notin> set uppers \<Longrightarrow> lower_char c = c"
proof -
  assume "c \<notin> set uppers"
  then have "map_of (zip uppers lowers) c = None"
    by (simp add: map_of_eq_None_iff keys_zip_uppers)
  then show ?thesis by (simp add: lower_char_def)
qed

lemma lower_char_result: "lower_char c \<notin> set uppers"
proof (cases "map_of (zip uppers lowers) c")
  case None
  then have "c \<notin> set uppers" by (simp add: map_of_eq_None_iff keys_zip_uppers)
  with None show ?thesis by (simp add: lower_char_def)
next
  case (Some d)
  then have "d \<in> set lowers" by (auto dest: map_of_SomeD set_zip_rightD)
  with Some show ?thesis by (simp add: lower_char_def alphabets_disjoint)
qed

lemma lower_lower_char: "lower_char (lower_char c) = lower_char c"
  by (rule lower_char_not_upper) (rule lower_char_result)

lemma lower_upper_char: "lower_char (upper_char c) = lower_char c"
proof (cases "map_of (zip lowers uppers) c")
  case None
  then show ?thesis by (simp add: upper_char_def)
next
  case (Some d)
  have "length lowers = length uppers" by (simp add: length_alphabets)
  from map_of_zip_swap [OF this distinct_uppers Some]
  have "map_of (zip uppers lowers) d = Some c" .
  then have 1: "lower_char d = c" by (simp add: lower_char_def)
  from Some have "c \<in> set lowers" by (auto dest: map_of_SomeD set_zip_leftD)
  then have "lower_char c = c" by (simp add: lower_char_not_upper alphabets_disjoint)
  with 1 Some show ?thesis by (simp add: upper_char_def)
qed

lemma lower_char_dash: "lower_char c = CHR ''-'' \<longleftrightarrow> c = CHR ''-''"
proof (cases "map_of (zip uppers lowers) c")
  case None
  then show ?thesis by (simp add: lower_char_def)
next
  case (Some d)
  then have "d \<in> set lowers" "c \<in> set uppers"
    by (auto dest: map_of_SomeD set_zip_rightD set_zip_leftD)
  with Some dash_no_letter show ?thesis by (auto simp: lower_char_def)
qed

lemma toLowerCase_idem: "toLowerCase (toLowerCase s) = toLowerCase s"
  by (simp add: toLowerCase_def lower_lower_char)

lemma toLowerCase_toUpperCase: "toLowerCase (toUpperCase s) = toLowerCase s"
  by (simp add: toLowerCase_def toUpperCase_def lower_upper_char)

lemma toLowerCase_append: "toLowerCase (a @ b) = toLowerCase a @ toLowerCase b"
  by (simp add: toLowerCase_def)

lemma join_dash_split_dash: "join_dash (split_dash s) = s"
proof (induction s)
  case Nil
  show ?case by simp
next
  case (Cons c cs)
  obtain w ws where sp: "split_dash cs = w # ws"
    by (cases cs; cases "split_dash cs") (auto split: if_splits list.splits)
  with Cons show ?case by (cases ws) (auto)
qed

lemma split_dash_not_Nil: "split_dash s \<noteq> []"
  by (induction s) (auto split: list.splits)

lemma split_dash_no_dash: "w \<in> set (split_dash s) \<Longrightarrow> CHR ''-'' \<notin> set w"
  by (induction s arbitrary: w) (auto split: if_splits list.splits)

lemma split_dash_no_dash_word: "CHR ''-'' \<notin> set w \<Longrightarrow> split_dash w = [w]"
  by (induction w) auto

lemma split_dash_word_dash:
  "CHR ''-'' \<notin> set w \<Longrightarrow> split_dash (w @ CHR ''-'' # s) = w # split_dash s"
  by (induction w) (auto simp: split_dash_not_Nil split: list.splits)

lemma split_dash_join_dash:
  "ws \<noteq> [] \<Longrightarrow> \<forall>w \<in> set ws. CHR ''-'' \<notin> set w \<Longrightarrow> split_dash (join_dash ws) = ws"
proof (induction ws rule: join_dash.induct)
  case 1
  then show ?case by simp
next
  case (2 w)
  then show ?case by (simp add: split_dash_no_dash_word)
next
  case (3 w v ws)
  then show ?case by (simp add: split_dash_word_dash)
qed

lemma toLowerCase_join_dash: "toLowerCase (join_dash ws) = join_dash (map toLowerCase ws)"
proof (induction ws rule: join_dash.induct)
  case (3 w v ws)
  have "lower_char CHR ''-'' = CHR ''-''" by (simp add: lower_char_dash)
  with 3 show ?case by (simp add: toLowerCase_def)
qed (simp_all add: toLowerCase_def)

lemma split_dash_toLowerCase: "split_dash (toLowerCase s) = map toLowerCase (split_dash s)"
proof (induction s)
  case Nil
  show ?case by (simp add: toLowerCase_def)
next
  case (Cons c cs)
  then have IH: "split_dash (map lower_char cs) = map (map lower_char) (split_dash cs)"
    by (simp add: toLowerCase_def)
  show ?case
    using IH split_dash_not_Nil [of cs]
    by (cases "split_dash cs") (auto simp: toLowerCase_def lower_char_dash)
qed

lemma join_dash_append:
  "xs \<noteq> [] \<Longrightarrow> ys \<noteq> [] \<Longrightarrow> join_dash (xs @ ys) = join_dash xs @ CHR ''-'' # join_dash ys"
proof (induction xs rule: join_dash.induct)
  case 1
  then show ?case by simp
next
  case (2 w)
  then show ?case by (cases ys) auto
next
  case (3 w v ws)
  then show ?case by simp
qed

lemma join_dash_Nil: "join_dash ws = [] \<Longrightarrow> ws = [] \<or> ws = [[]]"
  by (induction ws rule: join_dash.induct) auto

subsection \<open>The extension stripper\<close>

lemma substring_0: "0 \<le> pos \<Longrightarrow> substring s 0 pos = take (nat pos) s"
  by (simp add: substring_def clamp_index_def min_def)

lemma substring_from_drop: "substring_from s pos = drop (nat pos) s"
  by (simp add: substring_from_def clamp_index_def min_def)

lemma removeUnicodeExtensions_unchanged: "removeUnicodeExtensions tag = tag"
proof -
  have "substring tag 0 pos @ substring_from tag pos = tag" if "0 \<le> pos" for pos
    using that by (simp add: substring_0 substring_from_drop)
  moreover have "0 \<le> indexOf tag ''-x-''" if "\<not> indexOf tag ''-x-'' < 0"
    using that by simp
  ultimately show ?thesis
    by (simp add: removeUnicodeExtensions_def Let_def)
qed

text \<open>
  C3. The stripper is to return the tag with one \<open>-u-\<close> extension sequence removed from
  the part before the private use suffix. On \<open>en-u-ca-chinese\<close> that is \<open>en\<close>; the
  function returns the tag as it came, with the extension still in it.
\<close>

theorem removeUnicodeExtensions_keeps_extension:
  "removeUnicodeExtensions ''en-u-ca-chinese'' = ''en-u-ca-chinese''
   \<and> RegExp_test unicodeLocaleExtensionSequenceRE (removeUnicodeExtensions ''en-u-ca-chinese'')"
proof -
  have "RegExp_test unicodeLocaleExtensionSequenceRE ''en-u-ca-chinese''"
    by code_simp
  then show ?thesis
    by (simp only: removeUnicodeExtensions_unchanged)
qed

subsection \<open>The validator\<close>

lemma private_use_only_valid:
  "RegExp_test languageTagRE tag \<Longrightarrow> startsWith tag ''x-'' \<Longrightarrow>
   isStructurallyValidLanguageTag tag"
  by (simp add: isStructurallyValidLanguageTag_def)

lemma duplicate_rejection_examples:
  "\<not> isStructurallyValidLanguageTag ''en-a-bbb-a-ccc''
   \<and> \<not> isStructurallyValidLanguageTag ''en-fonipa-fonipa''
   \<and> isStructurallyValidLanguageTag ''en-a-bbb-ccc''
   \<and> isStructurallyValidLanguageTag ''en-fonipa''
   \<and> isStructurallyValidLanguageTag ''x-fonipa-fonipa-a-a''"
  by code_simp

text \<open>
  A repeated singleton in another case passes too; a subtag repeated inside one
  extension sequence is rejected although it is no variant; and behind an upper-case
  \<open>X\<close> the private use subtags are checked for duplicates.
\<close>

lemma duplicate_detection_other_examples:
  "isStructurallyValidLanguageTag ''en-a-bbb-A-ccc''
   \<and> RegExp_test languageTagRE ''en-a-bb-fonipa-fonipa''
   \<and> \<not> isStructurallyValidLanguageTag ''en-a-bb-fonipa-fonipa''
   \<and> RegExp_test languageTagRE ''X-a-b-a''
   \<and> \<not> isStructurallyValidLanguageTag ''X-a-b-a''
   \<and> isStructurallyValidLanguageTag ''x-a-b-a''"
  by code_simp

text \<open>
  C6. A tag that matches the grammar and is not private use only is to be rejected
  exactly when a variant occurs twice, compared without regard to case, or a singleton
  occurs twice, before the private use suffix. \<open>en-fonipa-FONIPA\<close> matches the grammar
  and its two variants are the same up to case; the back reference of
  \<open>duplicateVariantRE\<close> compares them exactly, so the tag is accepted.
\<close>

theorem duplicate_variant_in_other_case_accepted:
  "RegExp_test languageTagRE ''en-fonipa-FONIPA''
   \<and> split_dash ''en-fonipa-FONIPA'' = [''en'', ''fonipa'', ''FONIPA'']
   \<and> toLowerCase ''FONIPA'' = toLowerCase ''fonipa''
   \<and> isStructurallyValidLanguageTag ''en-fonipa-FONIPA''"
  by code_simp

subsection \<open>The loops of the canonicalizer, with the module's empty tables\<close>

lemma standard_loop_stop:
  "i < length subtags \<Longrightarrow> stops_at subtags i \<Longrightarrow>
   standard_loop sm em subtags i = Inr (subtags, i)"
  by (subst standard_loop.simps) (simp add: stops_at_def Let_def)

lemma standard_loop_step:
  assumes "i < length subtags" "\<not> stops_at subtags i"
  shows "standard_loop Map.empty Map.empty subtags i =
         standard_loop Map.empty Map.empty (subtags[i := recase i (subtags ! i)]) (Suc i)"
  using assms by (subst standard_loop.simps) (auto simp: stops_at_def recase_def Let_def)

lemma standard_loop_end:
  "\<not> i < length subtags \<Longrightarrow> standard_loop sm em subtags i = Inr (subtags, i)"
  by (subst standard_loop.simps) simp

lemma standard_loop_total:
  assumes "i \<le> length s"
  shows "\<exists>L j. standard_loop Map.empty Map.empty s i = Inr (L, j)
           \<and> length L = length s \<and> i \<le> j \<and> j \<le> length s
           \<and> (j < length s \<longrightarrow> stops_at s j)
           \<and> (\<forall>k. i \<le> k \<and> k < j \<longrightarrow> \<not> stops_at s k)
           \<and> (\<forall>k < length s. L ! k = (if i \<le> k \<and> k < j then recase k (s ! k) else s ! k))"
  using assms
proof (induction "length s - i" arbitrary: i s)
  case 0
  then have "i = length s" by simp
  then show ?case by (auto simp: standard_loop_end)
next
  case (Suc n)
  then have il: "i < length s" by simp
  show ?case
  proof (cases "stops_at s i")
    case True
    with il show ?thesis by (auto simp: standard_loop_stop)
  next
    case False
    let ?s = "s[i := recase i (s ! i)]"
    have step: "standard_loop Map.empty Map.empty s i =
                standard_loop Map.empty Map.empty ?s (Suc i)"
      by (rule standard_loop_step [OF il False])
    have same: "stops_at ?s k = stops_at s k" if "i < k" for k
      using that by (simp add: stops_at_def)
    have "\<exists>L j. standard_loop Map.empty Map.empty ?s (Suc i) = Inr (L, j)
           \<and> length L = length ?s \<and> Suc i \<le> j \<and> j \<le> length ?s
           \<and> (j < length ?s \<longrightarrow> stops_at ?s j)
           \<and> (\<forall>k. Suc i \<le> k \<and> k < j \<longrightarrow> \<not> stops_at ?s k)
           \<and> (\<forall>k < length ?s. L ! k =
                 (if Suc i \<le> k \<and> k < j then recase k (?s ! k) else ?s ! k))"
    proof (rule Suc.hyps(1))
      show "n = length ?s - Suc i" using Suc.hyps(2) by simp
      show "Suc i \<le> length ?s" using il by simp
    qed
    then obtain L j where
      r: "standard_loop Map.empty Map.empty ?s (Suc i) = Inr (L, j)"
         "length L = length s" "Suc i \<le> j" "j \<le> length s"
         "j < length s \<longrightarrow> stops_at ?s j"
         "\<forall>k < length s. L ! k =
            (if Suc i \<le> k \<and> k < j then recase k (?s ! k) else ?s ! k)"
         "\<forall>k. Suc i \<le> k \<and> k < j \<longrightarrow> \<not> stops_at ?s k"
      by auto
    from r(3,5) same [of j] have st: "j < length s \<longrightarrow> stops_at s j" by simp
    have fs: "\<not> stops_at s k" if "i \<le> k" "k < j" for k
    proof (cases "k = i")
      case True
      with False show ?thesis by simp
    next
      case ne: False
      with that have "Suc i \<le> k" by simp
      with r(7) that same [of k] show ?thesis by simp
    qed
    have "L ! k = (if i \<le> k \<and> k < j then recase k (s ! k) else s ! k)"
      if "k < length s" for k
    proof (cases "k = i")
      case True
      with r(6) that r(3) il show ?thesis by simp
    next
      case False
      with r(6) that show ?thesis by auto
    qed
    with r(1,2,3,4) st fs step show ?thesis by auto
  qed
qed

lemma extension_loop_raises:
  "i < length subtags \<Longrightarrow> subtags ! i \<noteq> ''x'' \<Longrightarrow>
   extension_loop subtags i exts = Inl (ReferenceError ''sybtags is not defined'')"
  by (subst extension_loop.simps) (simp add: sybtags_def Let_def)

lemma extension_loop_skip:
  "\<not> (i < length subtags \<and> subtags ! i \<noteq> ''x'') \<Longrightarrow>
   extension_loop subtags i exts = Inr (exts, i)"
  by (subst extension_loop.simps) auto

lemma canonicalizeLanguageTag_eq:
  assumes "standard_loop Map.empty Map.empty (split_dash (toLowerCase tag)) 0 = Inr (L, j)"
  shows "canonicalizeLanguageTag tag =
           (if j < length L \<and> L ! j \<noteq> ''x''
            then Inl (ReferenceError ''sybtags is not defined'')
            else Inr (let normal = join_dash (take j L);
                          privateUse = (if j < length L then join_dash (drop j L) else [])
                      in if privateUse \<noteq> []
                         then (if normal \<noteq> [] then normal @ CHR ''-'' # privateUse
                               else privateUse)
                         else normal))"
  using assms
  by (simp add: canonicalizeLanguageTag_def canonicalizeLanguageTagWith_def
      langTagMappings_def langSubtagMappings_def extlangMappings_def Let_def
      extension_loop_raises extension_loop_skip slice_def slice_from_def)

lemma canonicalizeLanguageTag_case:
  "toLowerCase a = toLowerCase b \<Longrightarrow> canonicalizeLanguageTag a = canonicalizeLanguageTag b"
  by (simp add: canonicalizeLanguageTag_def canonicalizeLanguageTagWith_def Let_def)

lemma toLowerCase_recase: "toLowerCase (recase k w) = toLowerCase w"
proof (cases "length w = 4")
  case True
  then obtain a b where w: "w = a # b" by (cases w) auto
  then show ?thesis
    using True
    by (simp add: recase_def toLowerCase_toUpperCase toLowerCase_append
        substring_from_def clamp_index_def)
       (simp add: toLowerCase_def toUpperCase_def lower_upper_char)
next
  case False
  then show ?thesis by (simp add: recase_def toLowerCase_toUpperCase)
qed

text \<open>
  The canonicalizer throws on a tag with an extension sequence, returns on every other
  tag, and throws nothing but the ReferenceError of \<open>sybtags\<close>.
\<close>

lemma canonicalize_raises:
  assumes "extension_singleton_at tag j"
  shows "canonicalizeLanguageTag tag = Inl (ReferenceError ''sybtags is not defined'')"
proof -
  define s where "s = split_dash (toLowerCase tag)"
  from assms have j: "0 < j" "j < length s" "length (s ! j) = 1"
    and nx: "''x'' \<notin> set (take (Suc j) s)"
    by (simp_all add: extension_singleton_at_def s_def Let_def)
  from j have sj: "stops_at s j" by (simp add: stops_at_def)
  obtain L i where loop: "standard_loop Map.empty Map.empty s 0 = Inr (L, i)"
    and len: "length L = length s" and il: "i \<le> length s"
    and first: "\<forall>k. k < i \<longrightarrow> \<not> stops_at s k"
    and nth: "\<forall>k < length s. L ! k = (if k < i then recase k (s ! k) else s ! k)"
    using standard_loop_total [of 0 s] by auto
  from first sj have le: "i \<le> j" by (meson not_le_imp_less)
  with j(2) have l0: "i < length s" by simp
  have "s ! i \<in> set (take (Suc j) s)"
    using le j(2) by (auto simp: in_set_conv_nth intro!: exI [of _ i])
  with nx have "s ! i \<noteq> ''x''" by auto
  with nth l0 have "L ! i \<noteq> ''x''" by simp
  with l0 len canonicalizeLanguageTag_eq [of tag L i] loop show ?thesis
    by (simp add: s_def)
qed

lemma canonicalizeLanguageTag_returns_iff:
  "(\<exists>c. canonicalizeLanguageTag tag = Inr c) \<longleftrightarrow> \<not> (\<exists>j. extension_singleton_at tag j)"
proof
  assume "\<exists>c. canonicalizeLanguageTag tag = Inr c"
  then show "\<not> (\<exists>j. extension_singleton_at tag j)"
    by (auto dest: canonicalize_raises)
next
  assume none: "\<not> (\<exists>j. extension_singleton_at tag j)"
  define s where "s = split_dash (toLowerCase tag)"
  obtain L j where loop: "standard_loop Map.empty Map.empty s 0 = Inr (L, j)"
    and len: "length L = length s"
    and st: "j < length s \<longrightarrow> stops_at s j"
    and first: "\<forall>k. k < j \<longrightarrow> \<not> stops_at s k"
    and nth: "\<forall>k < length s. L ! k = (if k < j then recase k (s ! k) else s ! k)"
    using standard_loop_total [of 0 s] by auto
  have "\<not> (j < length L \<and> L ! j \<noteq> ''x'')"
  proof
    assume a: "j < length L \<and> L ! j \<noteq> ''x''"
    with len nth have sj: "s ! j \<noteq> ''x''" "j < length s" by auto
    with st have l1: "length (s ! j) = 1" and j0: "0 < j" by (auto simp: stops_at_def)
    have "s ! k \<noteq> ''x''" if "k < Suc j" for k
    proof (cases "k = j")
      case True
      with sj show ?thesis by simp
    next
      case False
      with that have "k < j" by simp
      with first have "\<not> stops_at s k" by simp
      then show ?thesis by (auto simp: stops_at_def)
    qed
    then have "''x'' \<notin> set (take (Suc j) s)"
      using sj(2) by (auto simp: in_set_conv_nth)
    with l1 j0 sj(2) have "extension_singleton_at tag j"
      by (simp add: extension_singleton_at_def s_def Let_def)
    with none show False by blast
  qed
  with canonicalizeLanguageTag_eq [of tag L j] loop
  show "\<exists>c. canonicalizeLanguageTag tag = Inr c" by (simp add: s_def)
qed

text \<open>
  Wherever the canonicalizer returns, canonicalizing its result returns the same string.
\<close>

lemma canonicalizeLanguageTag_idempotent_where_defined:
  assumes "canonicalizeLanguageTag tag = Inr c"
  shows "canonicalizeLanguageTag c = Inr c"
proof -
  define s where "s = split_dash (toLowerCase tag)"
  have s_map: "s = map toLowerCase (split_dash tag)"
    by (simp add: s_def split_dash_toLowerCase)
  have low: "toLowerCase w = w" if "w \<in> set s" for w
    using that by (auto simp: s_map toLowerCase_idem)
  have nd: "\<forall>w \<in> set s. CHR ''-'' \<notin> set w"
    by (auto simp: s_def dest: split_dash_no_dash)
  have ne: "s \<noteq> []" by (simp add: s_def split_dash_not_Nil)
  have js: "join_dash s = toLowerCase tag" by (simp add: s_def join_dash_split_dash)
  obtain L j where loop: "standard_loop Map.empty Map.empty s 0 = Inr (L, j)"
    and len: "length L = length s" and jl: "j \<le> length s"
    and st: "j < length s \<longrightarrow> stops_at s j"
    and nth: "\<forall>k < length s. L ! k = (if k < j then recase k (s ! k) else s ! k)"
    using standard_loop_total [of 0 s] by auto
  have eq: "canonicalizeLanguageTag tag =
           (if j < length L \<and> L ! j \<noteq> ''x''
            then Inl (ReferenceError ''sybtags is not defined'')
            else Inr (let normal = join_dash (take j L);
                          privateUse = (if j < length L then join_dash (drop j L) else [])
                      in if privateUse \<noteq> []
                         then (if normal \<noteq> [] then normal @ CHR ''-'' # privateUse
                               else privateUse)
                         else normal))"
    by (rule canonicalizeLanguageTag_eq) (use loop in \<open>simp add: s_def\<close>)
  from eq assms have x: "\<not> (j < length L \<and> L ! j \<noteq> ''x'')"
    by (auto split: if_splits)
  from eq assms x have c: "c = (let normal = join_dash (take j L);
                          privateUse = (if j < length L then join_dash (drop j L) else [])
                      in if privateUse \<noteq> []
                         then (if normal \<noteq> [] then normal @ CHR ''-'' # privateUse
                               else privateUse)
                         else normal)"
    by (simp split: if_splits)
  have lowL: "map toLowerCase L = s"
  proof (rule nth_equalityI)
    show "length (map toLowerCase L) = length s" by (simp add: len)
  next
    fix k assume "k < length (map toLowerCase L)"
    then have k: "k < length s" by (simp add: len)
    then have "s ! k \<in> set s" by simp
    then have "toLowerCase (s ! k) = s ! k" by (rule low)
    with k nth len show "map toLowerCase L ! k = s ! k"
      by (simp add: toLowerCase_recase)
  qed
  have whole: "canonicalizeLanguageTag c = Inr c" if "c = join_dash L"
  proof -
    from that have "toLowerCase c = toLowerCase tag"
      by (simp add: toLowerCase_join_dash lowL js)
    then have "canonicalizeLanguageTag c = canonicalizeLanguageTag tag"
      by (rule canonicalizeLanguageTag_case)
    with assms show ?thesis by simp
  qed
  show ?thesis
  proof (cases "j < length L")
    case False
    with jl len have "take j L = L" by simp
    with False c have "c = join_dash L" by (simp add: Let_def)
    then show ?thesis by (rule whole)
  next
    case True
    with x have xj: "L ! j = ''x''" by simp
    from True have dj: "drop j L = ''x'' # drop (Suc j) L"
      using xj by (simp add: Cons_nth_drop_Suc [symmetric])
    have pne: "join_dash (drop j L) \<noteq> []"
      by (cases "drop (Suc j) L") (simp_all add: dj)
    show ?thesis
    proof (cases "join_dash (take j L) = []")
      case False
      have "take j L \<noteq> []"
      proof
        assume "take j L = []"
        then have "join_dash (take j L) = []" by (simp only: join_dash.simps)
        with False show False by contradiction
      qed
      moreover from True have "drop j L \<noteq> []" by simp
      ultimately have "join_dash (take j L @ drop j L) =
                       join_dash (take j L) @ CHR ''-'' # join_dash (drop j L)"
        by (rule join_dash_append)
      with c True pne False have "c = join_dash L" by (simp add: Let_def)
      then show ?thesis by (rule whole)
    next
      case normal_empty: True
      with c \<open>j < length L\<close> pne have cp: "c = join_dash (drop j L)" by (simp add: Let_def)
      show ?thesis
      proof (cases "j = 0")
        case True
        with cp have "c = join_dash L" by simp
        then show ?thesis by (rule whole)
      next
        case False
        from normal_empty have "take j L = [] \<or> take j L = [[]]" by (rule join_dash_Nil)
        with False \<open>j < length L\<close> have t1: "take j L = [[]]" by auto
        then have "length (take j L) = 1" by simp
        with \<open>j < length L\<close> have j1: "j = 1" by simp
        define s2 where "s2 = drop 1 s"
        have "drop 1 L = drop 1 s"
        proof (rule nth_equalityI)
          show "length (drop 1 L) = length (drop 1 s)" by (simp add: len)
        next
          fix k assume "k < length (drop 1 L)"
          with nth j1 len show "drop 1 L ! k = drop 1 s ! k" by simp
        qed
        with cp j1 have cs2: "c = join_dash s2" by (simp add: s2_def)
        from \<open>j < length L\<close> j1 len have s2ne: "s2 \<noteq> []" by (simp add: s2_def)
        have s2set: "set s2 \<subseteq> set s" by (simp add: s2_def set_drop_subset)
        have "map toLowerCase s2 = s2"
          using s2set low by (intro map_idI) auto
        then have lc: "toLowerCase c = c" by (simp add: cs2 toLowerCase_join_dash)
        have "split_dash (join_dash s2) = s2"
          using s2ne s2set nd by (intro split_dash_join_dash) auto
        then have sp: "split_dash (toLowerCase c) = s2"
          by (simp only: lc) (simp only: cs2)
        from \<open>j < length L\<close> j1 len nth xj have "s ! 1 = ''x''" by simp
        with \<open>j < length L\<close> j1 len have s20: "s2 ! 0 = ''x''" by (simp add: s2_def)
        then have "stops_at s2 0" by (simp add: stops_at_def)
        with s2ne have "standard_loop Map.empty Map.empty s2 0 = Inr (s2, 0)"
          by (simp add: standard_loop_stop)
        then have "standard_loop Map.empty Map.empty (split_dash (toLowerCase c)) 0 = Inr (s2, 0)"
          by (simp add: sp)
        from canonicalizeLanguageTag_eq [OF this] s20 s2ne
        have "canonicalizeLanguageTag c = Inr (join_dash s2)"
          using pne cp cs2 by (auto simp: Let_def)
        with cs2 show ?thesis by simp
      qed
    qed
  qed
qed

subsection \<open>The loop of the list canonicalizer\<close>

lemma forEach_tag_raises:
  "tag \<in> set tags \<Longrightarrow> canonicalizeLanguageTag tag = Inl e \<Longrightarrow>
   \<exists>e'. forEach_tag tags seen = Inl e'"
  by (induction tags arbitrary: seen) (auto split: sum.splits)

text \<open>
  Where every tag before the first invalid one has a canonical form, the call fails at
  the invalid tag with the RangeError that names it, whatever follows.
\<close>

lemma forEach_tag_fail_fast:
  assumes "\<forall>t \<in> set pre. isStructurallyValidLanguageTag t
             \<and> (\<exists>c. canonicalizeLanguageTag t = Inr c)"
    and "\<not> isStructurallyValidLanguageTag bad"
  shows "forEach_tag (pre @ bad # post) seen =
         Inl (RangeError (''invalid language tag '' @ bad))"
  using assms by (induction pre arbitrary: seen) auto

text \<open>
  Where every tag is valid and has a canonical form, the result holds the canonical forms
  in the order they were first seen.
\<close>

lemma forEach_tag_first_seen:
  assumes "\<forall>t \<in> set tags. isStructurallyValidLanguageTag t
             \<and> (\<exists>c. canonicalizeLanguageTag t = Inr c)"
  shows "forEach_tag tags seen =
         Inr (fold (\<lambda>c seen. Set_add seen c) (canonical_forms tags) seen)"
  using assms by (induction tags arbitrary: seen) auto

lemma fold_Set_add:
  "fold (\<lambda>c seen. Set_add seen c) cs seen = seen @ filter (\<lambda>c. c \<notin> set seen) (first_seen cs)"
proof (induction cs arbitrary: seen)
  case Nil
  show ?case by simp
next
  case (Cons c cs)
  show ?case
  proof (cases "c \<in> set seen")
    case True
    then have "filter (\<lambda>y. y \<notin> set seen) (filter (\<lambda>y. y \<noteq> c) (first_seen cs))
               = filter (\<lambda>y. y \<notin> set seen) (first_seen cs)"
      by (auto intro: filter_cong)
    with True Cons.IH [of seen] show ?thesis by (simp add: Set_add_def)
  next
    case False
    have "filter (\<lambda>y. y \<notin> set (seen @ [c])) (first_seen cs)
          = filter (\<lambda>y. y \<notin> set seen) (filter (\<lambda>y. y \<noteq> c) (first_seen cs))"
      by (auto intro: filter_cong)
    with False Cons.IH [of "seen @ [c]"] show ?thesis by (simp add: Set_add_def)
  qed
qed

lemma first_seen_set: "set (first_seen xs) = set xs"
  by (induction xs) auto

lemma first_seen_distinct: "distinct (first_seen xs)"
  by (induction xs) auto

lemma canonicalizeLocaleList_first_seen:
  assumes "\<forall>t \<in> set tags. isStructurallyValidLanguageTag t
             \<and> (\<exists>c. canonicalizeLanguageTag t = Inr c)"
  shows "canonicalizeLocaleList (Sequence tags) = Inr (first_seen (canonical_forms tags))"
  using forEach_tag_first_seen [OF assms, of "[]"]
  by (simp add: canonicalizeLocaleList_def fold_Set_add)

lemma canonicalizeLocaleList_no_extension_first_seen:
  assumes "\<forall>t \<in> set tags. isStructurallyValidLanguageTag t
             \<and> \<not> (\<exists>j. extension_singleton_at t j)"
  shows "canonicalizeLocaleList (Sequence tags) = Inr (first_seen (canonical_forms tags))"
  using assms by (intro canonicalizeLocaleList_first_seen)
    (simp add: canonicalizeLanguageTag_returns_iff)

lemma canonicalizeLocaleList_no_extension_fail_fast:
  assumes "\<forall>t \<in> set pre. isStructurallyValidLanguageTag t
             \<and> \<not> (\<exists>j. extension_singleton_at t j)"
    and "\<not> isStructurallyValidLanguageTag bad"
  shows "canonicalizeLocaleList (Sequence (pre @ bad # post)) =
         Inl (RangeError (''invalid language tag '' @ bad))"
proof -
  from assms(1) have "\<forall>t \<in> set pre. isStructurallyValidLanguageTag t
             \<and> (\<exists>c. canonicalizeLanguageTag t = Inr c)"
    by (simp add: canonicalizeLanguageTag_returns_iff)
  from forEach_tag_fail_fast [OF this assms(2)] show ?thesis
    by (simp add: canonicalizeLocaleList_def)
qed

lemma canonicalizeLocaleList_a_b_a:
  assumes "isStructurallyValidLanguageTag a" "isStructurallyValidLanguageTag b"
    and "canonicalizeLanguageTag a = Inr ca" "canonicalizeLanguageTag b = Inr cb" "ca \<noteq> cb"
  shows "canonicalizeLocaleList (Sequence [a, b, a]) = Inr [ca, cb]"
  using assms by (simp add: canonicalizeLocaleList_def Set_add_def)

lemma fail_fast_example:
  "canonicalizeLocaleList (Sequence [''de'', ''wrong-tag'', ''fr-FR'']) =
     Inl (RangeError ''invalid language tag wrong-tag'')"
  by code_simp

lemma first_seen_example:
  "canonicalizeLocaleList (Sequence [''de'', ''fr-fr'', ''DE'']) = Inr [''de'', ''fr-FR'']"
  by code_simp

subsection \<open>What the canonicalizer returns\<close>

text \<open>
  C9, as amended. Let a structurally valid tag, lower-cased, be no key of the whole-tag
  table, and let its subtags contain an extension sequence: at an index \<open>j\<close> after
  position 0 a single-character subtag that is not \<open>x\<close>, with no subtag \<open>x\<close>
  before it. Then \<open>canonicalizeLanguageTag\<close> returns no value: it throws the
  ReferenceError of the undeclared \<open>sybtags\<close>; and \<open>canonicalizeLocaleList\<close> throws
  on every list that contains the tag. The condition on the subtags before index \<open>j\<close>
  is the amendment: without it the statement fails, as the theorem after the next shows.
\<close>

theorem extension_sequence_ReferenceError:
  assumes "isStructurallyValidLanguageTag tag"
    and "langTagMappings (toLowerCase tag) = None"
    and "extension_singleton_at tag j"
  shows "canonicalizeLanguageTag tag = Inl (ReferenceError ''sybtags is not defined'')
         \<and> (\<forall>tags. tag \<in> set tags
               \<longrightarrow> (\<exists>e. canonicalizeLocaleList (Sequence tags) = Inl e))"
  using canonicalize_raises [OF assms(3)] forEach_tag_raises [of tag]
  by (simp add: canonicalizeLocaleList_def)

theorem extension_sequence_ReferenceError_witness:
  "isStructurallyValidLanguageTag ''de-u-co-phonebk''
   \<and> langTagMappings (toLowerCase ''de-u-co-phonebk'') = None
   \<and> extension_singleton_at ''de-u-co-phonebk'' 1
   \<and> canonicalizeLanguageTag ''de-u-co-phonebk'' =
       Inl (ReferenceError ''sybtags is not defined'')
   \<and> (\<exists>e. canonicalizeLocaleList (Sequence [''fr'', ''de-u-co-phonebk'']) = Inl e)"
proof -
  have v: "isStructurallyValidLanguageTag ''de-u-co-phonebk''" by code_simp
  have m: "langTagMappings (toLowerCase ''de-u-co-phonebk'') = None"
    by (simp add: langTagMappings_def)
  have x: "extension_singleton_at ''de-u-co-phonebk'' 1" by code_simp
  from extension_sequence_ReferenceError [OF v m x] v m x show ?thesis by simp
qed

text \<open>
  C9, as first stated, asks only for a single-character subtag other than \<open>x\<close> after
  position 0. The valid tag \<open>en-x-a\<close> has one, the \<open>a\<close> at index 2 of its subtags
  \<open>en\<close>, \<open>x\<close>, \<open>a\<close>, and is no key of the whole-tag table; the first loop stops at
  the \<open>x\<close>, the extension loop is not entered, and the tag is returned as it is (the
  private use sequence is left as is).
\<close>

theorem private_use_singleton_returns:
  "isStructurallyValidLanguageTag ''en-x-a''
   \<and> langTagMappings (toLowerCase ''en-x-a'') = None
   \<and> split_dash (toLowerCase ''en-x-a'') = [''en'', ''x'', ''a'']
   \<and> (0 :: nat) < 2
   \<and> 2 < length (split_dash (toLowerCase ''en-x-a''))
   \<and> length (split_dash (toLowerCase ''en-x-a'') ! 2) = 1
   \<and> split_dash (toLowerCase ''en-x-a'') ! 2 \<noteq> ''x''
   \<and> canonicalizeLanguageTag ''en-x-a'' = Inr ''en-x-a''
   \<and> canonicalizeLocaleList (Sequence [''en-x-a'']) = Inr [''en-x-a'']"
proof -
  have s: "split_dash (toLowerCase ''en-x-a'') = [''en'', ''x'', ''a'']" by code_simp
  have v: "isStructurallyValidLanguageTag ''en-x-a''" by code_simp
  have c: "canonicalizeLanguageTag ''en-x-a'' = Inr ''en-x-a''" by code_simp
  have l: "canonicalizeLocaleList (Sequence [''en-x-a'']) = Inr [''en-x-a'']" by code_simp
  from s v c l show ?thesis by (simp add: langTagMappings_def)
qed

text \<open>
  A single-character subtag of the private use sequence introduces no extension
  sequence in the sense of the amended statement; the same holds for a tag that is
  private use only.
\<close>

lemma private_use_subtag_no_extension:
  "isStructurallyValidLanguageTag ''en-x-a''
   \<and> \<not> extension_singleton_at ''en-x-a'' 2
   \<and> canonicalizeLanguageTag ''en-x-a'' = Inr ''en-x-a''
   \<and> isStructurallyValidLanguageTag ''x-a-b''
   \<and> \<not> extension_singleton_at ''x-a-b'' 1
   \<and> \<not> extension_singleton_at ''x-a-b'' 2
   \<and> canonicalizeLanguageTag ''x-a-b'' = Inr ''x-a-b''"
  by code_simp

text \<open>
  C4. A valid tag with extension sequences is to come back with the sequences sorted:
  \<open>zh-u-ca-chinese-t-zh-latn\<close> as \<open>zh-t-zh-latn-u-ca-chinese\<close>. The extension loop throws
  the ReferenceError of \<open>sybtags\<close> on its first round, and nothing is returned.
\<close>

theorem canonicalizeLanguageTag_extensions_not_sorted:
  "isStructurallyValidLanguageTag ''zh-u-ca-chinese-t-zh-latn''
   \<and> canonicalizeLanguageTag ''zh-u-ca-chinese-t-zh-latn'' =
       Inl (ReferenceError ''sybtags is not defined'')"
  by code_simp

text \<open>
  C2. Canonicalization is to be idempotent on every structurally valid tag. The valid tag
  \<open>ja-JP-u-ca-japanese\<close> has no canonical form to compare: the call throws the
  ReferenceError of \<open>sybtags\<close>, and so does the call applied to its result.
\<close>

theorem canonicalizeLanguageTag_twice_raises:
  "isStructurallyValidLanguageTag ''ja-JP-u-ca-japanese''
   \<and> canonicalizeLanguageTag ''ja-JP-u-ca-japanese'' =
       Inl (ReferenceError ''sybtags is not defined'')
   \<and> (case canonicalizeLanguageTag ''ja-JP-u-ca-japanese'' of
         Inl e \<Rightarrow> Inl e
       | Inr c \<Rightarrow> canonicalizeLanguageTag c) = Inl (ReferenceError ''sybtags is not defined'')"
  by code_simp

text \<open>
  With the two table entries that the comments of the loop name, the canonicalizer does
  give \<open>nan-Hans-MM\<close>.
\<close>

lemma canonicalizeLanguageTagWith_registry_entries:
  "canonicalizeLanguageTagWith Map.empty [''BU'' \<mapsto> ''MM'']
     [''nan'' \<mapsto> \<lparr>preferred = ''nan'', prefix = ''zh''\<rparr>] ''Zh-NAN-haNS-bu'' =
   Inr ''nan-Hans-MM''"
  by code_simp

text \<open>
  C5. \<open>Zh-NAN-haNS-bu\<close> is to canonicalize to \<open>nan-Hans-MM\<close>. The module's subtag and
  extlang tables are empty, so the script and the region are re-cased and nothing is
  replaced or removed: the result is \<open>zh-nan-Hans-BU\<close>.
\<close>

theorem canonicalizeLanguageTag_Zh_NAN_haNS_bu:
  "canonicalizeLanguageTag ''Zh-NAN-haNS-bu'' = Inr ''zh-nan-Hans-BU''"
  by code_simp

subsection \<open>What the list canonicalizer returns\<close>

text \<open>
  C1. A list with an invalid element is to fail with the RangeError naming the first
  invalid element. In \<open>["en-u-ca-chinese", "wrong-tag"]\<close> the first element is valid and the
  second is not; the call fails while canonicalizing the first element, with the
  ReferenceError of \<open>sybtags\<close>, and the invalid tag is never reached or named.
\<close>

theorem canonicalizeLocaleList_ReferenceError_before_invalid:
  "isStructurallyValidLanguageTag ''en-u-ca-chinese''
   \<and> \<not> isStructurallyValidLanguageTag ''wrong-tag''
   \<and> canonicalizeLocaleList (Sequence [''en-u-ca-chinese'', ''wrong-tag'']) =
       Inl (ReferenceError ''sybtags is not defined'')"
  by code_simp

text \<open>
  C8. A list of valid tags is to give the ordered set of their canonical forms, first seen
  first, later duplicates dropped. For the valid tags \<open>a = th-TH-u-nu-thai\<close> and
  \<open>b = fr\<close> the call on \<open>[a, b, a]\<close> returns no set: it throws the ReferenceError of
  \<open>sybtags\<close> at the first element.
\<close>

theorem canonicalizeLocaleList_valid_tags_raises:
  "isStructurallyValidLanguageTag ''th-TH-u-nu-thai''
   \<and> isStructurallyValidLanguageTag ''fr''
   \<and> canonicalizeLocaleList (Sequence [''th-TH-u-nu-thai'', ''fr'', ''th-TH-u-nu-thai'']) =
       Inl (ReferenceError ''sybtags is not defined'')"
  by code_simp

subsection \<open>The resolver\<close>

text \<open>
  C7. Resolution is to raise no error on any input and to return the default locale when
  nothing is requested. Every call of \<open>resolveLocale\<close> throws a ReferenceError when it
  calls the matcher it has selected, and the exported \<open>Locale.resolveLocale\<close> returns
  no resolution result on any arguments: no locale is returned either way.
\<close>

theorem resolveLocale_raises:
  "resolveLocale availableLocales requestedLocales options relevantExtensionKeys localeData =
     Inl (ReferenceError
       (if localeMatcher options = Some ''lookup''
        then ''LookupMatcher is not defined'' else ''BestFitMatcher is not defined''))
   \<and> (\<forall>result. member_resolveLocale Locale arguments \<noteq> Inr (ResolutionResult result))"
  by (simp add: resolveLocale_def LookupMatcher_def BestFitMatcher_def Locale_def)

lemma resolveLocale_empty_request:
  "resolveLocale [''en-US''] [] \<lparr>localeMatcher = Some ''lookup''\<rparr> [''ca'', ''nu''] () =
     Inl (ReferenceError ''LookupMatcher is not defined'')"
  by (simp add: resolveLocale_def LookupMatcher_def)

lemma resolveLocale_always_raises:
  "\<exists>e. resolveLocale availableLocales requestedLocales options relevantExtensionKeys localeData
        = Inl e"
  by (simp add: resolveLocale_def LookupMatcher_def BestFitMatcher_def)

text \<open>
  C10. The exported \<open>Locale.resolveLocale\<close> is not the resolver of the module: whatever
  the arguments, it returns \<open>undefined\<close>, the same for any two argument lists, while
  the resolver of the module never returns that (it never returns at all).
\<close>

theorem exported_resolveLocale_returns_undefined:
  "member_resolveLocale Locale arguments = Inr JSUndefined
   \<and> member_resolveLocale Locale arguments = member_resolveLocale Locale arguments'
   \<and> member_resolveLocale Locale arguments
       \<noteq> resolveLocale availableLocales requestedLocales options relevantExtensionKeys
           localeData"
  by (simp add: Locale_def resolveLocale_def LookupMatcher_def BestFitMatcher_def)

end
